theory Spec2Isabelle
  imports Main
begin

section \<open>Text\<close>

text \<open>
  The gateway works on Python text. A text is modelled as a \<^typ>\<open>string\<close>, a list of
  characters, and the development is about ASCII text: the case conversions below change
  the ASCII letters and leave every other character as it is.
\<close>

definition upper_char :: "char \<Rightarrow> char" where
  "upper_char c =
     (let n = (of_char c :: nat) in if 97 \<le> n \<and> n \<le> 122 then char_of (n - 32) else c)"

definition lower_char :: "char \<Rightarrow> char" where
  "lower_char c =
     (let n = (of_char c :: nat) in if 65 \<le> n \<and> n \<le> 90 then char_of (n + 32) else c)"

text \<open>\<^verbatim>\<open>s.upper()\<close> and \<^verbatim>\<open>s.lower()\<close>.\<close>

definition str_upper :: "string \<Rightarrow> string" where
  "str_upper s = map upper_char s"

definition str_lower :: "string \<Rightarrow> string" where
  "str_lower s = map lower_char s"

text \<open>\<^verbatim>\<open>str(i)\<close> of an integer: its decimal digits, with a minus sign when negative.\<close>

fun str_nat :: "nat \<Rightarrow> string" where
  "str_nat n =
     (if n < 10 then [char_of (48 + n)] else str_nat (n div 10) @ [char_of (48 + n mod 10)])"

definition py_str :: "int \<Rightarrow> string" where
  "py_str i = (if i < 0 then CHR ''-'' # str_nat (nat (- i)) else str_nat (nat i))"

text \<open>
  \<^verbatim>\<open>s.split(d)\<close> for a one-character separator: every occurrence of the separator ends
  a segment, segments may be empty, and the result always has at least one segment.
\<close>

fun str_split :: "char \<Rightarrow> string \<Rightarrow> string list" where
  "str_split d [] = [[]]"
| "str_split d (c # cs) =
     (if c = d then [] # str_split d cs
      else (case str_split d cs of
              [] \<Rightarrow> [[c]]
            | seg # segs \<Rightarrow> (c # seg) # segs))"

text \<open>\<^verbatim>\<open>sep.join(xs)\<close>.\<close>

fun join :: "string \<Rightarrow> string list \<Rightarrow> string" where
  "join sep [] = []"
| "join sep [x] = x"
| "join sep (x # y # ys) = x @ sep @ join sep (y # ys)"

definition hex_digit :: "nat \<Rightarrow> char" where
  "hex_digit n = (if n < 10 then char_of (48 + n) else char_of (87 + n))"

definition hex2 :: "nat \<Rightarrow> string" where
  "hex2 n = [hex_digit (n div 16 mod 16), hex_digit (n mod 16)]"

text \<open>
  \<^verbatim>\<open>repr(s)\<close> of a text, as \<^verbatim>\<open>str(config)\<close> prints the keys and values of a dictionary:
  single quotes, unless the text has a single quote and no double quote.
\<close>

definition repr_char :: "char \<Rightarrow> char \<Rightarrow> string" where
  "repr_char q c =
     (let n = (of_char c :: nat) in
      if c = q \<or> c = CHR 0x5C then [CHR 0x5C, c]
      else if c = CHR 0x09 then [CHR 0x5C, CHR ''t'']
      else if c = CHR 0x0A then [CHR 0x5C, CHR ''n'']
      else if c = CHR 0x0D then [CHR 0x5C, CHR ''r'']
      else if n < 32 \<or> n = 127 then [CHR 0x5C, CHR ''x''] @ hex2 n
      else [c])"

definition py_repr :: "string \<Rightarrow> string" where
  "py_repr s =
     (let q = (if CHR 0x27 \<in> set s \<and> CHR 0x22 \<notin> set s then CHR 0x22 else CHR 0x27)
      in [q] @ concat (map (repr_char q) s) @ [q])"

definition str_dict :: "(string \<times> string) list \<Rightarrow> string" where
  "str_dict d =
     ''{'' @ join '', '' (map (\<lambda>(k, v). py_repr k @ '': '' @ py_repr v) d) @ ''}''"

text \<open>
  \<^verbatim>\<open>json.dumps(config)\<close> of a dictionary of texts, with the default separators and
  \<^verbatim>\<open>ensure_ascii\<close>: the quote, the backslash and every character outside the range from
  space to tilde are escaped.
\<close>

definition json_char :: "char \<Rightarrow> string" where
  "json_char c =
     (let n = (of_char c :: nat) in
      if c = CHR 0x22 then [CHR 0x5C, CHR 0x22]
      else if c = CHR 0x5C then [CHR 0x5C, CHR 0x5C]
      else if c = CHR 0x08 then [CHR 0x5C, CHR ''b'']
      else if c = CHR 0x0C then [CHR 0x5C, CHR ''f'']
      else if c = CHR 0x0A then [CHR 0x5C, CHR ''n'']
      else if c = CHR 0x0D then [CHR 0x5C, CHR ''r'']
      else if c = CHR 0x09 then [CHR 0x5C, CHR ''t'']
      else if n < 32 \<or> 126 < n then [CHR 0x5C, CHR ''u'', CHR ''0'', CHR ''0''] @ hex2 n
      else [c])"

definition json_string :: "string \<Rightarrow> string" where
  "json_string s = [CHR 0x22] @ concat (map json_char s) @ [CHR 0x22]"

definition json_dumps :: "(string \<times> string) list \<Rightarrow> string" where
  "json_dumps d =
     ''{'' @ join '', '' (map (\<lambda>(k, v). json_string k @ '': '' @ json_string v) d) @ ''}''"

section \<open>Regular expressions\<close>

text \<open>
  The three patterns of the gateway are sequences of the items below. A character class
  is the dot (any character but the newline) or a range; an alternation is between
  literal words; a repetition is of one character class and is greedy.
\<close>

datatype cls = AnyChar | Range char char

fun in_cls :: "cls \<Rightarrow> char \<Rightarrow> bool" where
  "in_cls AnyChar c = (c \<noteq> CHR 0x0A)"
| "in_cls (Range a b) c =
     ((of_char a :: nat) \<le> of_char c \<and> (of_char c :: nat) \<le> of_char b)"

datatype item =
    Bol
  | Eol
  | Lit string
  | Alt "string list"
  | One cls
  | Star cls
  | Plus cls
  | GrpOpen
  | GrpClose

text \<open>The text of group 1: not yet opened, being read, or read.\<close>

datatype cap = Unset | Opened string | Closed string

fun eat :: "string \<Rightarrow> cap \<Rightarrow> cap" where
  "eat t (Opened g) = Opened (g @ t)"
| "eat t c = c"

fun close_grp :: "cap \<Rightarrow> cap" where
  "close_grp (Opened g) = Closed g"
| "close_grp c = c"

text \<open>\<^verbatim>\<open>m.group(1)\<close> of a match.\<close>

fun group1 :: "cap \<Rightarrow> string" where
  "group1 (Closed g) = g"
| "group1 c = []"

text \<open>The first alternative that leads to a match, in the order tried.\<close>

fun first_some :: "('a \<Rightarrow> 'b option) \<Rightarrow> 'a list \<Rightarrow> 'b option" where
  "first_some f [] = None"
| "first_some f (x # xs) = (case f x of Some r \<Rightarrow> Some r | None \<Rightarrow> first_some f xs)"

text \<open>
  The backtracking matcher: \<open>rmatch p pos c s\<close> matches the items \<open>p\<close> against the text
  \<open>s\<close>, which starts at position \<open>pos\<close> of the whole text. A repetition tries the longest
  run first and gives characters back one at a time; an alternation tries its words from
  left to right. The dollar matches at the end of the text and before a newline that
  ends the text.
\<close>

primrec rmatch :: "item list \<Rightarrow> nat \<Rightarrow> cap \<Rightarrow> string \<Rightarrow> cap option" where
  "rmatch [] pos c s = Some c"
| "rmatch (x # p) pos c s =
     (case x of
        Bol \<Rightarrow> if pos = 0 then rmatch p pos c s else None
      | Eol \<Rightarrow> if s = [] \<or> s = [CHR 0x0A] then rmatch p pos c s else None
      | Lit l \<Rightarrow>
          if take (length l) s = l
          then rmatch p (pos + length l) (eat l c) (drop (length l) s) else None
      | Alt ls \<Rightarrow>
          first_some
            (\<lambda>l. if take (length l) s = l
                 then rmatch p (pos + length l) (eat l c) (drop (length l) s) else None)
            ls
      | One k \<Rightarrow>
          (case s of
             [] \<Rightarrow> None
           | a # t \<Rightarrow> if in_cls k a then rmatch p (Suc pos) (eat [a] c) t else None)
      | Star k \<Rightarrow>
          first_some (\<lambda>n. rmatch p (pos + n) (eat (take n s) c) (drop n s))
            (rev [0 ..< Suc (length (takeWhile (in_cls k) s))])
      | Plus k \<Rightarrow>
          first_some (\<lambda>n. rmatch p (pos + n) (eat (take n s) c) (drop n s))
            (rev [1 ..< Suc (length (takeWhile (in_cls k) s))])
      | GrpOpen \<Rightarrow> rmatch p pos (Opened []) s
      | GrpClose \<Rightarrow> rmatch p pos (close_grp c) s)"

text \<open>\<^verbatim>\<open>p.match(s)\<close> tries position 0 only; \<^verbatim>\<open>p.search(s)\<close> tries every position from the left.\<close>

definition re_match :: "item list \<Rightarrow> string \<Rightarrow> cap option" where
  "re_match p s = rmatch p 0 Unset s"

definition re_search :: "item list \<Rightarrow> string \<Rightarrow> cap option" where
  "re_search p s = first_some (\<lambda>i. rmatch p i Unset (drop i s)) [0 ..< Suc (length s)]"

text \<open>\<^verbatim>\<open>^[A-P][0-9]+$\<close>\<close>

definition hcpattern :: "item list" where
  "hcpattern = [Bol, One (Range CHR ''A'' CHR ''P''), Plus (Range CHR ''0'' CHR ''9''), Eol]"

text \<open>\<^verbatim>\<open>(?:rcvi|rcvt|sndc|snds|sndm|sndt) addr unit.+hu ([A-P][0-9]+)\<close>\<close>

definition rercviaddr :: "item list" where
  "rercviaddr =
     [Alt [''rcvi'', ''rcvt'', ''sndc'', ''snds'', ''sndm'', ''sndt''], Lit '' addr unit'',
      Plus AnyChar, Lit ''hu '',
      GrpOpen, One (Range CHR ''A'' CHR ''P''), Plus (Range CHR ''0'' CHR ''9''), GrpClose]"

text \<open>\<^verbatim>\<open>(?:rcvi|rcvt|sndc|snds|sndm|sndt) func.*(On|Off) :\<close>\<close>

definition rercvifunc :: "item list" where
  "rercvifunc =
     [Alt [''rcvi'', ''rcvt'', ''sndc'', ''snds'', ''sndm'', ''sndt''], Lit '' func'',
      Star AnyChar, GrpOpen, Alt [''On'', ''Off''], GrpClose, Lit '' :'']"

section \<open>Configuration and effects\<close>

text \<open>
  The settings the script reads from its environment once, at start-up, and never assigns
  again: the command and state topic prefixes, the housecode letters to announce, the
  discovery prefix and the CM17A flag.
\<close>

record config =
  cmdtopic :: string
  stattopic :: string
  discoveryhouses :: "string list"
  discoverytopic :: string
  cm17 :: bool

text \<open>
  \<^verbatim>\<open>[h for h in discoveryhouses.upper() if h in "ABCDEFGHIJKLMNOP"]\<close>: the letters of the
  setting, upper-cased, that are housecode letters, each a text of one character.
\<close>

definition parse_discoveryhouses :: "string \<Rightarrow> string list" where
  "parse_discoveryhouses env =
     map (\<lambda>h. [h]) (filter (\<lambda>h. h \<in> set ''ABCDEFGHIJKLMNOP'') (str_upper env))"

text \<open>
  What a handler does to the outside, in the order it does it: a line printed, a
  controller run to its end (\<^verbatim>\<open>subprocess.run\<close>), a controller started
  (\<^verbatim>\<open>subprocess.Popen\<close>), a subscription, and a publish with its topic, payload and
  retain flag. The controller and the broker client are taken at their interface: a run
  returns an exit code, a publish is recorded.
\<close>

datatype effect =
    Print string
  | Run "string list"
  | Popen "string list"
  | Subscribe string
  | Publish string string bool

fun publishes :: "effect list \<Rightarrow> (string \<times> string \<times> bool) list" where
  "publishes [] = []"
| "publishes (Publish t p r # es) = (t, p, r) # publishes es"
| "publishes (e # es) = publishes es"

fun invocations :: "effect list \<Rightarrow> string list list" where
  "invocations [] = []"
| "invocations (Run argv # es) = argv # invocations es"
| "invocations (e # es) = invocations es"

fun spawns :: "effect list \<Rightarrow> string list list" where
  "spawns [] = []"
| "spawns (Popen argv # es) = argv # spawns es"
| "spawns (e # es) = spawns es"

fun printed :: "effect list \<Rightarrow> string list" where
  "printed [] = []"
| "printed (Print l # es) = l # printed es"
| "printed (e # es) = printed es"

record message =
  topic :: string
  payload :: string

datatype py_error = NameError string

datatype outcome = Finished | Raised py_error

section \<open>Commands\<close>

text \<open>
  \<^verbatim>\<open>execute(client, cmd, housecode)\<close>; \<open>returncode\<close> is the exit code the controller gives
  to this run. The result is what the function does and the code it returns.
\<close>

definition execute :: "config \<Rightarrow> int \<Rightarrow> string \<Rightarrow> string \<Rightarrow> effect list \<times> int" where
  "execute cfg returncode cmd housecode =
     (let heyucmd = cmd;
          heyucmd = (if cm17 cfg \<and> str_lower cmd = ''on'' then ''fon'' else heyucmd);
          heyucmd = (if cm17 cfg \<and> str_lower cmd = ''off'' then ''foff'' else heyucmd)
      in ([Run [''heyu'', str_lower heyucmd, str_lower housecode]] @
          (if returncode \<noteq> 0
           then [Print (''Error running heyu, return code: '' @ py_str returncode)] else []) @
          [Print (''Device Status Update: '' @ stattopic cfg @ ''/'' @ str_lower housecode),
           Publish (stattopic cfg @ ''/'' @ str_lower housecode) (str_upper cmd) True],
          returncode))"

text \<open>
  \<^verbatim>\<open>on_message(client, userdata, message)\<close>, on the decoded payload. The last segment of
  the topic is read at index \<^verbatim>\<open>len(topiclist)-1\<close>, which exists: a split has a segment.
\<close>

definition on_message :: "config \<Rightarrow> int \<Rightarrow> message \<Rightarrow> effect list" where
  "on_message cfg returncode m =
     (let command = str_upper (payload m);
          topiclist = str_split CHR ''/'' (topic m);
          hc = str_upper (topiclist ! (length topiclist - 1))
      in Print (''Received: '' @ topic m @ '' '' @ command) #
         (if command \<in> set [''ON'', ''OFF''] \<and> re_match hcpattern hc \<noteq> None
          then Print (''Sending X10 command to homecode '' @ hc) #
               fst (execute cfg returncode command hc)
          else [Print ''Invalid command or home code'']))"

section \<open>Discovery\<close>

text \<open>The dictionary and the topic of \<^verbatim>\<open>ha_discovery_announce(client, house, unit)\<close>.\<close>

definition ha_config :: "config \<Rightarrow> string \<Rightarrow> int \<Rightarrow> (string \<times> string) list" where
  "ha_config cfg house unit =
     [(''name'', ''X10 Module '' @ str_upper house @ py_str unit),
      (''state_topic'', stattopic cfg @ ''/'' @ str_lower house @ py_str unit),
      (''command_topic'', cmdtopic cfg @ ''/'' @ str_lower house @ py_str unit),
      (''unique_id'', ''x10mqtt_x10_'' @ str_lower house @ py_str unit)]"

definition ha_topic :: "config \<Rightarrow> string \<Rightarrow> int \<Rightarrow> string" where
  "ha_topic cfg house unit =
     discoverytopic cfg @ ''/switch/x10mqtt/x10_'' @ str_lower house @ py_str unit @ ''/config''"

definition ha_discovery_announce :: "config \<Rightarrow> string \<Rightarrow> int \<Rightarrow> effect list" where
  "ha_discovery_announce cfg house unit =
     [Print (''Publishing at '' @ ha_topic cfg house unit @ '': '' @
             str_dict (ha_config cfg house unit)),
      Publish (ha_topic cfg house unit) (json_dumps (ha_config cfg house unit)) True]"

text \<open>
  \<^verbatim>\<open>on_connect(client, userdata, flags, rc)\<close>: a non-zero result code is printed and the
  handler goes on; the units are \<^verbatim>\<open>range(1, 17)\<close>.
\<close>

definition on_connect :: "config \<Rightarrow> int \<Rightarrow> effect list" where
  "on_connect cfg rc =
     (if rc \<noteq> 0 then [Print (''Error connecting to MQTT broker rc '' @ py_str rc)] else []) @
     [Print (''Connected to MQTT broker, result code '' @ py_str rc),
      Subscribe (cmdtopic cfg @ ''/+'')] @
     concat (map (\<lambda>house.
        Print (''Announcing housecode '' @ house @ '' for HomeAssistant discovery'') #
        concat (map (\<lambda>unit. ha_discovery_announce cfg house unit) [1 .. 16]))
       (discoveryhouses cfg))"

section \<open>The monitor\<close>

text \<open>
  The global \<^verbatim>\<open>rcvihc\<close> is the state of the monitor loop: the housecode of the last
  address line, or the empty text. \<^verbatim>\<open>rcviaddr\<close> stores a housecode; \<^verbatim>\<open>rcvifunc\<close>
  publishes for the stored housecode, when there is one, and empties the store.
\<close>

definition rcviaddr :: "string \<Rightarrow> string \<Rightarrow> string" where
  "rcviaddr housecode rcvihc = housecode"

definition rcvifunc :: "config \<Rightarrow> string \<Rightarrow> string \<Rightarrow> string \<times> effect list" where
  "rcvifunc cfg func rcvihc =
     (if rcvihc \<noteq> []
      then ([],
            [Print (''Remote status change, publishing stat update: '' @ stattopic cfg @ ''/'' @
                    str_lower rcvihc @ '' is now '' @ str_upper func),
             Publish (stattopic cfg @ ''/'' @ str_lower rcvihc) (str_upper func) True])
      else (rcvihc, []))"

text \<open>The body of the loop over the monitor's lines: both searches, then both tests.\<close>

definition process_line :: "config \<Rightarrow> string \<Rightarrow> string \<Rightarrow> string \<times> effect list" where
  "process_line cfg rcvihc line =
     (let addrsearch = re_search rercviaddr line;
          funcsearch = re_search rercvifunc line;
          rcvihc = (case addrsearch of
                      Some a \<Rightarrow> rcviaddr (group1 a) rcvihc
                    | None \<Rightarrow> rcvihc)
      in case funcsearch of
           Some f \<Rightarrow> rcvifunc cfg (group1 f) rcvihc
         | None \<Rightarrow> (rcvihc, []))"

fun run_lines :: "config \<Rightarrow> string \<Rightarrow> string list \<Rightarrow> string \<times> effect list" where
  "run_lines cfg rcvihc [] = (rcvihc, [])"
| "run_lines cfg rcvihc (line # rest) =
     (let (rcvihc1, es1) = process_line cfg rcvihc line;
          (rcvihc2, es2) = run_lines cfg rcvihc1 rest
      in (rcvihc2, es1 @ es2))"

text \<open>
  The end of \<^verbatim>\<open>monitor()\<close>, once the controller has closed its output and exited with
  \<open>return_code\<close>: with a non-zero code the \<^verbatim>\<open>raise\<close> statement is reached, and
  evaluating its argument \<^verbatim>\<open>cmd\<close>, a name bound nowhere in the script outside the
  parameters of \<^verbatim>\<open>execute\<close>, raises the name error; with code 0 the generator returns.
\<close>

definition monitor_end :: "int \<Rightarrow> outcome" where
  "monitor_end return_code =
     (if return_code \<noteq> 0 then Raised (NameError ''cmd'') else Finished)"

text \<open>
  The main loop, for a controller that prints \<open>lines\<close> and exits with \<open>return_code\<close>:
  the monitor is started, every line is processed from the empty store, and the script
  ends as the generator does. Nothing follows the loop in the script.
\<close>

definition main_loop :: "config \<Rightarrow> string list \<Rightarrow> int \<Rightarrow> effect list \<times> outcome" where
  "main_loop cfg lines return_code =
     (Popen [''heyu'', ''monitor''] # snd (run_lines cfg [] lines), monitor_end return_code)"

section \<open>The housecode grammar\<close>

text \<open>
  The grammar of a housecode as the specification words it: a letter from A to P followed
  by one decimal digit or more, and nothing else.
\<close>

definition is_house_letter :: "char \<Rightarrow> bool" where
  "is_house_letter c = in_cls (Range CHR ''A'' CHR ''P'') c"

definition is_digit :: "char \<Rightarrow> bool" where
  "is_digit c = in_cls (Range CHR ''0'' CHR ''9'') c"

fun housecode_grammar :: "string \<Rightarrow> bool" where
  "housecode_grammar [] = False"
| "housecode_grammar (c # ds) = (is_house_letter c \<and> ds \<noteq> [] \<and> list_all is_digit ds)"

text \<open>
  The settings of a gateway started with no optional variable set: the default prefixes,
  no housecode to announce, the CM11A vocabulary.
\<close>

definition default_config :: config where
  "default_config =
     \<lparr>cmdtopic = ''x10/cmd'', stattopic = ''x10/stat'', discoveryhouses = [],
      discoverytopic = ''homeassistant'', cm17 = False\<rparr>"

section \<open>The script as a whole\<close>

text \<open>
  The state of the running script: the settings (module globals assigned once at start-up;
  no function of the script declares any of them \<^verbatim>\<open>global\<close>), the global \<^verbatim>\<open>rcvihc\<close>,
  and what the script has done so far. Three things happen to it: the broker client
  calls \<^verbatim>\<open>on_connect\<close> with a result code, it calls \<^verbatim>\<open>on_message\<close> with a message (the
  controller run, if any, returning the given code), or the monitor loop reads a line.
\<close>

record script =
  script_cfg :: config
  script_rcvihc :: string
  script_trace :: "effect list"

datatype input = Connected int | Received int message | MonitorLine string

fun handle :: "script \<Rightarrow> input \<Rightarrow> script" where
  "handle s (Connected rc) =
     s\<lparr>script_trace := script_trace s @ on_connect (script_cfg s) rc\<rparr>"
| "handle s (Received returncode m) =
     s\<lparr>script_trace := script_trace s @ on_message (script_cfg s) returncode m\<rparr>"
| "handle s (MonitorLine line) =
     (let (rcvihc, es) = process_line (script_cfg s) (script_rcvihc s) line
      in s\<lparr>script_rcvihc := rcvihc, script_trace := script_trace s @ es\<rparr>)"

definition run_script :: "script \<Rightarrow> input list \<Rightarrow> script" where
  "run_script s ins = foldl handle s ins"

text \<open>What a connection with result code \<open>rc\<close> publishes when the script is in state \<open>s\<close>.\<close>

definition announced :: "script \<Rightarrow> int \<Rightarrow> (string \<times> string \<times> bool) list" where
  "announced s rc =
     publishes (drop (length (script_trace s)) (script_trace (handle s (Connected rc))))"

text \<open>
  A script that announces the letter A and has done nothing yet, and two things that
  happen to it: the monitor reports the address B2, and a command for A1 arrives whose
  controller run fails with code 1.
\<close>

definition example_script :: script where
  "example_script =
     \<lparr>script_cfg = default_config\<lparr>discoveryhouses := [''A'']\<rparr>, script_rcvihc = [],
      script_trace = []\<rparr>"

definition example_inputs :: "input list" where
  "example_inputs =
     [MonitorLine ''rcvi addr unit 2 : hu B2'',
      Received 1 \<lparr>topic = ''x10/cmd/A1'', payload = ''ON''\<rparr>]"

section \<open>Effects of a sequence\<close>

lemma publishes_append: "publishes (xs @ ys) = publishes xs @ publishes ys"
  by (induction xs rule: publishes.induct) simp_all

lemma spawns_append: "spawns (xs @ ys) = spawns xs @ spawns ys"
  by (induction xs rule: spawns.induct) simp_all

section \<open>Case conversion of the words of the protocol\<close>

lemma str_upper_commands: "str_upper ''ON'' = ''ON''" "str_upper ''OFF'' = ''OFF''"
  by (simp_all add: str_upper_def upper_char_def)

lemma str_lower_commands: "str_lower ''ON'' = ''on''" "str_lower ''OFF'' = ''off''"
  by code_simp+

lemma str_lower_actions: "str_lower ''fon'' = ''fon''" "str_lower ''foff'' = ''foff''"
  by (simp_all add: str_lower_def lower_char_def)

lemma str_lower_examples:
  "str_lower ''A1'' = ''a1''" "str_lower ''B2'' = ''b2''" "str_lower ''A0'' = ''a0''"
  "str_lower ''A123'' = ''a123''" "str_lower ''C5'' = ''c5''"
  by code_simp+

lemma str_upper_examples:
  "str_upper ''A1'' = ''A1''" "str_upper ''A0'' = ''A0''" "str_upper ''A123'' = ''A123''"
  "str_upper ''On'' = ''ON''" "str_upper ''Off'' = ''OFF''"
  by code_simp+

section \<open>Topics and their segments\<close>

lemma str_split_not_Nil: "str_split d s \<noteq> []"
  by (induction s) (auto split: list.splits)

lemma str_split_no_sep: "d \<notin> set h \<Longrightarrow> str_split d h = [h]"
  by (induction h) auto

lemma str_split_append_sep: "str_split d (p @ d # h) = str_split d p @ str_split d h"
proof (induction p)
  case Nil
  show ?case by simp
next
  case (Cons c p)
  obtain seg segs where sp: "str_split d p = seg # segs"
    using str_split_not_Nil [of d p] by (cases "str_split d p") auto
  show ?case using Cons sp by simp
qed

section \<open>The matcher\<close>

lemma first_some_None_iff: "first_some f xs = None \<longleftrightarrow> (\<forall>x \<in> set xs. f x = None)"
  by (induction xs) (auto split: option.splits)

lemma first_some_SomeD: "first_some f xs = Some r \<Longrightarrow> \<exists>x \<in> set xs. f x = Some r"
  by (induction xs) (auto split: option.splits)

section \<open>Housecodes\<close>

lemma house_letter_upper: "is_house_letter c \<Longrightarrow> upper_char c = c"
  by (simp add: is_house_letter_def upper_char_def)

lemma digit_upper: "is_digit c \<Longrightarrow> upper_char c = c"
  by (simp add: is_digit_def upper_char_def)

lemma digits_upper: "list_all is_digit ds \<Longrightarrow> map upper_char ds = ds"
  by (induction ds) (auto simp: digit_upper)

lemma grammar_upper: "housecode_grammar h \<Longrightarrow> str_upper h = h"
  by (cases h) (auto simp: str_upper_def house_letter_upper digits_upper)

lemma house_letter_not_sep: "is_house_letter c \<Longrightarrow> c \<noteq> CHR ''/''"
  by (auto simp: is_house_letter_def)

lemma digit_not_sep: "is_digit c \<Longrightarrow> c \<noteq> CHR ''/''"
  by (auto simp: is_digit_def)

lemma grammar_no_sep: "housecode_grammar h \<Longrightarrow> CHR ''/'' \<notin> set h"
  by (cases h) (auto simp: list_all_iff dest: house_letter_not_sep digit_not_sep)

lemma takeWhile_all: "list_all P xs \<Longrightarrow> takeWhile P xs = xs"
  by (induction xs) auto

section \<open>The matcher, item by item\<close>

lemma rmatch_Bol: "rmatch (Bol # p) pos c s = (if pos = 0 then rmatch p pos c s else None)"
  by simp

lemma rmatch_Eol:
  "rmatch (Eol # p) pos c s = (if s = [] \<or> s = [CHR 0x0A] then rmatch p pos c s else None)"
  by simp

lemma rmatch_Lit:
  "rmatch (Lit l # p) pos c s =
     (if take (length l) s = l
      then rmatch p (pos + length l) (eat l c) (drop (length l) s) else None)"
  by simp

lemma rmatch_Alt:
  "rmatch (Alt ls # p) pos c s =
     first_some
       (\<lambda>l. if take (length l) s = l
            then rmatch p (pos + length l) (eat l c) (drop (length l) s) else None) ls"
  by simp

lemma rmatch_One:
  "rmatch (One k # p) pos c s =
     (case s of
        [] \<Rightarrow> None
      | a # t \<Rightarrow> if in_cls k a then rmatch p (Suc pos) (eat [a] c) t else None)"
  by simp

lemma rmatch_Star:
  "rmatch (Star k # p) pos c s =
     first_some (\<lambda>n. rmatch p (pos + n) (eat (take n s) c) (drop n s))
       (rev [0 ..< Suc (length (takeWhile (in_cls k) s))])"
  by simp

lemma rmatch_Plus:
  "rmatch (Plus k # p) pos c s =
     first_some (\<lambda>n. rmatch p (pos + n) (eat (take n s) c) (drop n s))
       (rev [1 ..< Suc (length (takeWhile (in_cls k) s))])"
  by simp

lemma rmatch_GrpOpen: "rmatch (GrpOpen # p) pos c s = rmatch p pos (Opened []) s"
  by simp

lemma rmatch_GrpClose: "rmatch (GrpClose # p) pos c s = rmatch p pos (close_grp c) s"
  by simp

lemmas rmatch_items =
  rmatch_Bol rmatch_Eol rmatch_Lit rmatch_Alt rmatch_One rmatch_Star rmatch_Plus
  rmatch_GrpOpen rmatch_GrpClose

declare rmatch.simps(2) [simp del]

lemma plus_eol_digits:
  assumes "ds \<noteq> []" and "list_all is_digit ds"
  shows "rmatch [Plus (Range CHR ''0'' CHR ''9''), Eol] pos c ds = Some (eat ds c)"
proof -
  have tw: "takeWhile (in_cls (Range CHR ''0'' CHR ''9'')) ds = ds"
    using assms(2) takeWhile_all [of is_digit ds] by (simp add: is_digit_def [abs_def])
  have len: "1 \<le> length ds" using assms(1) by (cases ds) auto
  show ?thesis
    using len by (simp add: tw rmatch_Plus rmatch_Eol del: in_cls.simps)
qed

lemma grammar_matches:
  assumes "housecode_grammar h"
  shows "re_match hcpattern h = Some Unset"
proof (cases h)
  case Nil
  with assms show ?thesis by simp
next
  case (Cons a ds)
  with assms have a: "in_cls (Range CHR ''A'' CHR ''P'') a"
    and ds: "ds \<noteq> []" "list_all is_digit ds"
    by (simp_all add: is_house_letter_def)
  show ?thesis
    unfolding re_match_def hcpattern_def Cons
    using a by (simp add: rmatch_Bol rmatch_One plus_eol_digits [OF ds] del: in_cls.simps)
qed

text \<open>
  What \<^verbatim>\<open>hcpattern.match\<close> accepts: the housecodes of the grammar, and the same followed by
  one newline.
\<close>

lemma plus_eol_iff:
  "rmatch [Plus (Range CHR ''0'' CHR ''9''), Eol] pos c s \<noteq> None \<longleftrightarrow>
     (s \<noteq> [] \<and> list_all is_digit s) \<or>
     (\<exists>t. s = t @ [CHR 0x0A] \<and> t \<noteq> [] \<and> list_all is_digit t)"
  (is "?L \<longleftrightarrow> ?R")
proof
  assume ?L
  then obtain n where n: "1 \<le> n" "n \<le> length (takeWhile is_digit s)"
    and e: "drop n s = [] \<or> drop n s = [CHR 0x0A]"
    by (auto simp: rmatch_Plus rmatch_Eol first_some_None_iff is_digit_def [abs_def]
        simp del: in_cls.simps upt_Suc split: if_splits)
  have pre: "list_all is_digit (take n s)"
  proof -
    have "take n s = take n (takeWhile is_digit s)"
      using n(2) by (metis takeWhile_dropWhile_id take_append diff_is_0_eq take_0 append_Nil2)
    moreover have "list_all is_digit (takeWhile is_digit s)"
      by (simp add: list_all_iff) (meson set_takeWhileD)
    ultimately show ?thesis by (simp add: list_all_iff) (meson in_set_takeD)
  qed
  have ne: "take n s \<noteq> []" using n by (cases s) auto
  from e show ?R
  proof
    assume "drop n s = []"
    then have "take n s = s" by simp
    with pre ne show ?R by simp
  next
    assume "drop n s = [CHR 0x0A]"
    then have "s = take n s @ [CHR 0x0A]" by (metis append_take_drop_id)
    with pre ne show ?R by blast
  qed
next
  assume ?R
  then show ?L
  proof
    assume "s \<noteq> [] \<and> list_all is_digit s"
    then show ?L by (simp add: plus_eol_digits)
  next
    assume "\<exists>t. s = t @ [CHR 0x0A] \<and> t \<noteq> [] \<and> list_all is_digit t"
    then obtain t where t: "s = t @ [CHR 0x0A]" "t \<noteq> []" "list_all is_digit t" by blast
    have tw: "takeWhile (in_cls (Range CHR ''0'' CHR ''9'')) (t @ [CHR 0x0A]) = t"
      using t(3) by (induction t) (auto simp: is_digit_def)
    have len: "1 \<le> length t" using t(2) by (cases t) auto
    show ?L unfolding t(1) using len by (simp add: rmatch_Plus rmatch_Eol tw del: in_cls.simps)
  qed
qed

lemma hcpattern_iff:
  "re_match hcpattern h \<noteq> None \<longleftrightarrow>
     housecode_grammar h \<or> (\<exists>t. h = t @ [CHR 0x0A] \<and> housecode_grammar t)"
proof (cases h)
  case Nil
  then show ?thesis by (simp add: re_match_def hcpattern_def rmatch_Bol rmatch_One)
next
  case (Cons a s)
  have "re_match hcpattern h \<noteq> None \<longleftrightarrow>
      is_house_letter a \<and> rmatch [Plus (Range CHR ''0'' CHR ''9''), Eol] 1 Unset s \<noteq> None"
    by (simp add: Cons re_match_def hcpattern_def rmatch_Bol rmatch_One is_house_letter_def
        del: in_cls.simps)
  also have "\<dots> \<longleftrightarrow> is_house_letter a \<and> ((s \<noteq> [] \<and> list_all is_digit s) \<or>
     (\<exists>t. s = t @ [CHR 0x0A] \<and> t \<noteq> [] \<and> list_all is_digit t))"
    by (simp only: plus_eol_iff)
  also have "\<dots> \<longleftrightarrow> housecode_grammar h \<or> (\<exists>t. h = t @ [CHR 0x0A] \<and> housecode_grammar t)"
  proof -
    have "(\<exists>t. a # s = t @ [CHR 0x0A] \<and> housecode_grammar t) \<longleftrightarrow>
        is_house_letter a \<and> (\<exists>t. s = t @ [CHR 0x0A] \<and> t \<noteq> [] \<and> list_all is_digit t)"
    proof
      assume "\<exists>t. a # s = t @ [CHR 0x0A] \<and> housecode_grammar t"
      then obtain t where t: "a # s = t @ [CHR 0x0A]" "housecode_grammar t" by blast
      then obtain u where u: "t = a # u" by (cases t) auto
      with t show "is_house_letter a \<and> (\<exists>t. s = t @ [CHR 0x0A] \<and> t \<noteq> [] \<and> list_all is_digit t)"
        by auto
    next
      assume "is_house_letter a \<and> (\<exists>t. s = t @ [CHR 0x0A] \<and> t \<noteq> [] \<and> list_all is_digit t)"
      then obtain t where "is_house_letter a" "s = t @ [CHR 0x0A]" "t \<noteq> []" "list_all is_digit t"
        by blast
      then have "a # s = (a # t) @ [CHR 0x0A] \<and> housecode_grammar (a # t)" by simp
      then show "\<exists>t. a # s = t @ [CHR 0x0A] \<and> housecode_grammar t" by blast
    qed
    then show ?thesis by (auto simp: Cons)
  qed
  finally show ?thesis .
qed

section \<open>Claims about command execution\<close>

text \<open>
  C2. When the controller run returns a non-zero exit code, \<open>execute\<close> still publishes
  the commanded value, retained, to the state topic of the lower-cased housecode: the
  publish is the one made after a run that returned 0. The error is printed with the
  code, and the code is returned to the caller. This holds for every housecode and for
  both commands.
\<close>

theorem execute_failure_still_publishes:
  assumes "returncode \<noteq> 0" and "cmd = ''ON'' \<or> cmd = ''OFF''"
  shows "snd (execute cfg returncode cmd housecode) = returncode
    \<and> publishes (fst (execute cfg returncode cmd housecode)) =
        [(stattopic cfg @ ''/'' @ str_lower housecode, cmd, True)]
    \<and> publishes (fst (execute cfg returncode cmd housecode)) =
        publishes (fst (execute cfg 0 cmd housecode))
    \<and> printed (fst (execute cfg returncode cmd housecode)) =
        [''Error running heyu, return code: '' @ py_str returncode,
         ''Device Status Update: '' @ stattopic cfg @ ''/'' @ str_lower housecode]
    \<and> length (invocations (fst (execute cfg returncode cmd housecode))) = 1"
  using assms by (auto simp: execute_def Let_def str_upper_commands)

theorem execute_failure_still_publishes_witness:
  "snd (execute default_config 2 ''ON'' ''A1'') = 2
    \<and> publishes (fst (execute default_config 2 ''ON'' ''A1'')) =
        [(''x10/stat/a1'', ''ON'', True)]
    \<and> publishes (fst (execute default_config 2 ''ON'' ''A1'')) =
        publishes (fst (execute default_config 0 ''ON'' ''A1''))
    \<and> printed (fst (execute default_config 2 ''ON'' ''A1'')) =
        [''Error running heyu, return code: 2'', ''Device Status Update: x10/stat/a1'']"
proof -
  have rc: "(2::int) \<noteq> 0" by simp
  have cmd: "''ON'' = ''ON'' \<or> ''ON'' = ''OFF''" by simp
  have two: "py_str 2 = ''2''" by code_simp
  show ?thesis
    using execute_failure_still_publishes [OF rc cmd, of default_config "''A1''"]
    by (simp add: default_config_def str_lower_examples two execute_def str_upper_commands)
qed

lemma nth_last_segment:
  "str_split d s ! (length (str_split d s) - Suc 0) = last (str_split d s)"
  using str_split_not_Nil [of d s] by (simp add: last_conv_nth)

lemma str_lower_F: "str_lower (CHR ''F'' # s) = CHR ''f'' # str_lower s"
  by (simp add: str_lower_def) code_simp

lemma execute_effects:
  assumes "cmd = ''ON'' \<or> cmd = ''OFF''"
  shows "invocations (fst (execute cfg returncode cmd hc)) =
           [[''heyu'', str_lower (if cm17 cfg then CHR ''F'' # cmd else cmd), str_lower hc]]"
    and "publishes (fst (execute cfg returncode cmd hc)) =
           [(stattopic cfg @ ''/'' @ str_lower hc, cmd, True)]"
  using assms
  by (auto simp: execute_def str_upper_commands str_lower_commands str_lower_actions str_lower_F)

lemma on_message_accept:
  assumes "str_upper (payload m) = ''ON'' \<or> str_upper (payload m) = ''OFF''"
    and "re_match hcpattern (str_upper (last (str_split CHR ''/'' (topic m)))) \<noteq> None"
  shows "on_message cfg returncode m =
           Print (''Received: '' @ topic m @ '' '' @ str_upper (payload m)) #
           Print (''Sending X10 command to homecode '' @
                  str_upper (last (str_split CHR ''/'' (topic m)))) #
           fst (execute cfg returncode (str_upper (payload m))
                  (str_upper (last (str_split CHR ''/'' (topic m)))))"
  using assms by (auto simp: on_message_def Let_def nth_last_segment)

lemma on_message_reject:
  assumes "(str_upper (payload m) \<noteq> ''ON'' \<and> str_upper (payload m) \<noteq> ''OFF'') \<or>
      re_match hcpattern (str_upper (last (str_split CHR ''/'' (topic m)))) = None"
  shows "on_message cfg returncode m =
           [Print (''Received: '' @ topic m @ '' '' @ str_upper (payload m)),
            Print ''Invalid command or home code'']"
  using assms by (auto simp: on_message_def Let_def nth_last_segment)

lemma last_split_topic:
  assumes "housecode_grammar H"
  shows "last (str_split CHR ''/'' (p @ CHR ''/'' # H)) = H"
  using grammar_no_sep [OF assms] by (simp add: str_split_append_sep str_split_no_sep)

text \<open>
  C1. For every housecode \<open>H\<close> of the grammar and each of the commands ON and OFF, a
  message on the topic \<open>cmdtopic/H\<close> with the command as payload runs the controller
  exactly once, with the action of the hardware mode and the lower-cased housecode, and
  publishes exactly once: the command, retained, on \<open>stattopic/lowercase(H)\<close>. The
  action is ON or OFF for the CM11A and FON or FOFF for the CM17A; the script hands the
  action word to the controller in lower case, as it does the housecode.
\<close>

theorem on_message_dispatches_valid_command:
  assumes "housecode_grammar H" and "C = ''ON'' \<or> C = ''OFF''"
  shows "invocations (on_message cfg returncode \<lparr>topic = cmdtopic cfg @ ''/'' @ H, payload = C\<rparr>) =
           [[''heyu'', str_lower (if cm17 cfg then CHR ''F'' # C else C), str_lower H]]
       \<and> publishes (on_message cfg returncode \<lparr>topic = cmdtopic cfg @ ''/'' @ H, payload = C\<rparr>) =
           [(stattopic cfg @ ''/'' @ str_lower H, C, True)]"
proof -
  let ?m = "\<lparr>topic = cmdtopic cfg @ ''/'' @ H, payload = C\<rparr>"
  have up: "str_upper (payload ?m) = C"
    using assms(2) by (auto simp: str_upper_commands)
  have seg: "str_upper (last (str_split CHR ''/'' (topic ?m))) = H"
    using assms(1) by (simp add: last_split_topic grammar_upper)
  have ok: "re_match hcpattern (str_upper (last (str_split CHR ''/'' (topic ?m)))) \<noteq> None"
    unfolding seg using grammar_matches [OF assms(1)] by simp
  have "on_message cfg returncode ?m =
      Print (''Received: '' @ topic ?m @ '' '' @ C) #
      Print (''Sending X10 command to homecode '' @ H) # fst (execute cfg returncode C H)"
    using on_message_accept [of ?m cfg returncode] up seg ok assms(2) by simp
  then show ?thesis
    using execute_effects [OF assms(2), of cfg returncode H] by simp
qed

theorem on_message_dispatches_valid_command_witness:
  "invocations (on_message default_config 0 \<lparr>topic = ''x10/cmd/A1'', payload = ''ON''\<rparr>) =
     [[''heyu'', ''on'', ''a1'']]
   \<and> publishes (on_message default_config 0 \<lparr>topic = ''x10/cmd/A1'', payload = ''ON''\<rparr>) =
     [(''x10/stat/a1'', ''ON'', True)]
   \<and> invocations (on_message (default_config\<lparr>cm17 := True\<rparr>) 0
        \<lparr>topic = ''x10/cmd/B2'', payload = ''OFF''\<rparr>) = [[''heyu'', ''foff'', ''b2'']]
   \<and> publishes (on_message (default_config\<lparr>cm17 := True\<rparr>) 0
        \<lparr>topic = ''x10/cmd/B2'', payload = ''OFF''\<rparr>) = [(''x10/stat/b2'', ''OFF'', True)]"
proof -
  have g1: "housecode_grammar ''A1''" and g2: "housecode_grammar ''B2''"
    by (simp_all add: is_house_letter_def is_digit_def)
  have c1: "''ON'' = ''ON'' \<or> ''ON'' = ''OFF''" and c2: "''OFF'' = ''ON'' \<or> ''OFF'' = ''OFF''"
    by simp_all
  have l: "str_lower ''FOFF'' = ''foff''" by code_simp
  show ?thesis
    using on_message_dispatches_valid_command [OF g1 c1, of default_config 0]
      on_message_dispatches_valid_command [OF g2 c2, of "default_config\<lparr>cm17 := True\<rparr>" 0]
    by (simp add: default_config_def str_lower_examples str_lower_commands l)
qed

section \<open>What a connection publishes\<close>

lemma publishes_announce:
  "publishes (ha_discovery_announce cfg house unit) =
     [(ha_topic cfg house unit, json_dumps (ha_config cfg house unit), True)]"
  by (simp add: ha_discovery_announce_def)

lemma publishes_on_connect:
  "publishes (on_connect cfg rc) =
     concat (map (\<lambda>house.
       map (\<lambda>unit. (ha_topic cfg house unit, json_dumps (ha_config cfg house unit), True))
         [1 .. 16]) (discoveryhouses cfg))"
proof -
  have inner: "publishes (concat (map (ha_discovery_announce cfg house) units)) =
      map (\<lambda>unit. (ha_topic cfg house unit, json_dumps (ha_config cfg house unit), True)) units"
    for house units
    by (induction units) (simp_all add: publishes_append publishes_announce)
  have outer: "publishes (concat (map (\<lambda>house.
        Print (msg house) # concat (map (\<lambda>unit. ha_discovery_announce cfg house unit) units))
        houses)) =
      concat (map (\<lambda>house.
        map (\<lambda>unit. (ha_topic cfg house unit, json_dumps (ha_config cfg house unit), True))
          units) houses)" for houses units and msg :: "string \<Rightarrow> string"
    by (induction houses) (simp_all add: publishes_append inner)
  have pre1: "publishes (if rc \<noteq> 0 then [Print a] else []) = []" for a
    by simp
  have pre2: "publishes [Print b, Subscribe t] = []" for b t
    by simp
  show ?thesis
    unfolding on_connect_def by (simp only: publishes_append outer pre1 pre2 append_Nil)
qed

section \<open>Claims about validation\<close>

text \<open>
  A message is turned down, with the two lines printed and nothing else done, when its
  payload does not upper-case to ON or OFF, or when the upper-cased last segment of its
  topic is neither a housecode of the grammar nor one followed by a newline.
\<close>

lemma on_message_reject_grammar:
  assumes "(str_upper (payload m) \<noteq> ''ON'' \<and> str_upper (payload m) \<noteq> ''OFF'') \<or>
      (\<not> housecode_grammar (str_upper (last (str_split CHR ''/'' (topic m)))) \<and>
       (\<forall>t. str_upper (last (str_split CHR ''/'' (topic m))) = t @ [CHR 0x0A]
            \<longrightarrow> \<not> housecode_grammar t))"
  shows "on_message cfg returncode m =
           [Print (''Received: '' @ topic m @ '' '' @ str_upper (payload m)),
            Print ''Invalid command or home code'']"
proof (rule on_message_reject)
  from assms
  show "(str_upper (payload m) \<noteq> ''ON'' \<and> str_upper (payload m) \<noteq> ''OFF'') \<or>
      re_match hcpattern (str_upper (last (str_split CHR ''/'' (topic m)))) = None"
    using hcpattern_iff [of "str_upper (last (str_split CHR ''/'' (topic m)))"] by blast
qed

text \<open>
  C10. The check of the housecode bounds no unit number. Whenever the payload upper-cases
  to ON or OFF and the last segment of the topic upper-cases to a letter from A to P
  followed by one digit or more, whatever the digits (unit 0, units over 16), the message
  is accepted: the controller is run for that housecode and the state is published. The
  discovery of a connection, for its part, announces the units 1 to 16 of each letter.
\<close>

theorem on_message_unit_number_unbounded:
  assumes "is_house_letter c" and "ds \<noteq> []" and "list_all is_digit ds"
    and "str_upper (payload m) = ''ON'' \<or> str_upper (payload m) = ''OFF''"
    and "str_upper (last (str_split CHR ''/'' (topic m))) = c # ds"
  shows "invocations (on_message cfg returncode m) =
           [[''heyu'',
             str_lower (if cm17 cfg then CHR ''F'' # str_upper (payload m)
                        else str_upper (payload m)),
             str_lower (c # ds)]]
       \<and> publishes (on_message cfg returncode m) =
           [(stattopic cfg @ ''/'' @ str_lower (c # ds), str_upper (payload m), True)]
       \<and> map fst (publishes (on_connect cfg rc)) =
           concat (map (\<lambda>house. map (\<lambda>unit. ha_topic cfg house unit) [1 .. 16])
             (discoveryhouses cfg))"
proof -
  have g: "housecode_grammar (c # ds)"
    using assms(1-3) by simp
  have ok: "re_match hcpattern (str_upper (last (str_split CHR ''/'' (topic m)))) \<noteq> None"
    unfolding assms(5) using grammar_matches [OF g] by simp
  have run: "on_message cfg returncode m =
      Print (''Received: '' @ topic m @ '' '' @ str_upper (payload m)) #
      Print (''Sending X10 command to homecode '' @ c # ds) #
      fst (execute cfg returncode (str_upper (payload m)) (c # ds))"
    using on_message_accept [OF assms(4) ok, of cfg returncode] by (simp add: assms(5))
  have disc: "map fst (publishes (on_connect cfg rc)) =
      concat (map (\<lambda>house. map (\<lambda>unit. ha_topic cfg house unit) [1 .. 16])
        (discoveryhouses cfg))"
    unfolding publishes_on_connect by (simp add: map_concat comp_def del: upto.simps)
  show ?thesis
    using execute_effects [OF assms(4), of cfg returncode "c # ds"] run disc by simp
qed

theorem on_message_unit_number_unbounded_witness:
  "invocations (on_message default_config 0 \<lparr>topic = ''x10/cmd/a0'', payload = ''on''\<rparr>) =
     [[''heyu'', ''on'', ''a0'']]
   \<and> publishes (on_message default_config 0 \<lparr>topic = ''x10/cmd/a0'', payload = ''on''\<rparr>) =
     [(''x10/stat/a0'', ''ON'', True)]
   \<and> invocations (on_message default_config 0 \<lparr>topic = ''x10/cmd/A123'', payload = ''OFF''\<rparr>) =
     [[''heyu'', ''off'', ''a123'']]
   \<and> publishes (on_message default_config 0 \<lparr>topic = ''x10/cmd/A123'', payload = ''OFF''\<rparr>) =
     [(''x10/stat/a123'', ''OFF'', True)]"
proof -
  have c: "is_house_letter CHR ''A''" by (simp add: is_house_letter_def)
  have d0: "''0'' \<noteq> []" "list_all is_digit ''0''"
    and d123: "''123'' \<noteq> []" "list_all is_digit ''123''"
    by (simp_all add: is_digit_def)
  have p0: "str_upper (payload \<lparr>topic = ''x10/cmd/a0'', payload = ''on''\<rparr>) = ''ON'' \<or>
      str_upper (payload \<lparr>topic = ''x10/cmd/a0'', payload = ''on''\<rparr>) = ''OFF''"
    by code_simp
  have p123: "str_upper (payload \<lparr>topic = ''x10/cmd/A123'', payload = ''OFF''\<rparr>) = ''ON'' \<or>
      str_upper (payload \<lparr>topic = ''x10/cmd/A123'', payload = ''OFF''\<rparr>) = ''OFF''"
    by code_simp
  have s0: "str_upper (last (str_split CHR ''/''
      (topic \<lparr>topic = ''x10/cmd/a0'', payload = ''on''\<rparr>))) = ''A0''"
    by code_simp
  have s123: "str_upper (last (str_split CHR ''/''
      (topic \<lparr>topic = ''x10/cmd/A123'', payload = ''OFF''\<rparr>))) = ''A123''"
    by code_simp
  have u: "str_upper ''on'' = ''ON''" by code_simp
  show ?thesis
    using on_message_unit_number_unbounded [OF c d0 p0 s0, of default_config 0 0]
      on_message_unit_number_unbounded [OF c d123 p123 s123, of default_config 0 0]
    by (simp add: default_config_def str_lower_examples str_lower_commands str_upper_commands u)
qed

text \<open>
  C6. A message is to be turned down when the upper-cased last segment of its topic is not
  of the form \<^verbatim>\<open>[A-P][0-9]+\<close>. The segment \<^verbatim>\<open>A1\<close> followed by a newline is not of that
  form, and the script accepts it: the dollar of \<^verbatim>\<open>hcpattern\<close> matches before a newline
  that ends the text. The controller is run and the state is published, each with the
  newline in the housecode.
\<close>

theorem on_message_accepts_trailing_newline:
  "\<not> housecode_grammar (str_upper (last (str_split CHR ''/'' (''x10/cmd/A1'' @ [CHR 0x0A]))))
   \<and> on_message default_config 0 \<lparr>topic = ''x10/cmd/A1'' @ [CHR 0x0A], payload = ''ON''\<rparr> =
       [Print (''Received: x10/cmd/A1'' @ [CHR 0x0A] @ '' ON''),
        Print (''Sending X10 command to homecode A1'' @ [CHR 0x0A]),
        Run [''heyu'', ''on'', ''a1'' @ [CHR 0x0A]],
        Print (''Device Status Update: x10/stat/a1'' @ [CHR 0x0A]),
        Publish (''x10/stat/a1'' @ [CHR 0x0A]) ''ON'' True]"
  by code_simp

section \<open>Claims about discovery\<close>

text \<open>The setting \<^verbatim>\<open>AB\<close>, in either case, configures the letters A and B.\<close>

lemma parse_discoveryhouses_AB:
  "parse_discoveryhouses ''AB'' = [''A'', ''B'']" "parse_discoveryhouses ''a, b'' = [''A'', ''B'']"
  by code_simp+

lemma house_letter_cases:
  "str_lower ''A'' = ''a''" "str_lower ''B'' = ''b''"
  "str_upper ''A'' = ''A''" "str_upper ''B'' = ''B''"
  by code_simp+

lemma distinct_suffixes:
  "distinct (map (\<lambda>s. p @ s) xs) = distinct xs"
  by (simp add: distinct_map inj_on_def)

text \<open>
  C8. With the housecode letters A and B configured, a connection publishes exactly 32
  discovery messages, all retained and all different, one for each letter and each unit
  from 1 to 16, in that order. The message of a letter and a unit goes to the topic
  \<open>discoverytopic/switch/x10mqtt/x10_\<close> followed by the lower-cased letter, the unit and
  \<open>/config\<close>; its payload is the JSON text of a dictionary with exactly the keys name,
  state_topic, command_topic and unique_id, in which unique_id is \<open>x10mqtt_x10_\<close>
  followed by the lower-cased letter and the unit.
\<close>

theorem on_connect_announces_A_B:
  "publishes (on_connect (cfg\<lparr>discoveryhouses := [''A'', ''B'']\<rparr>) rc) =
     concat (map (\<lambda>(L, l). map (\<lambda>unit.
        (discoverytopic cfg @ ''/switch/x10mqtt/x10_'' @ l @ py_str unit @ ''/config'',
         json_dumps
           [(''name'', ''X10 Module '' @ L @ py_str unit),
            (''state_topic'', stattopic cfg @ ''/'' @ l @ py_str unit),
            (''command_topic'', cmdtopic cfg @ ''/'' @ l @ py_str unit),
            (''unique_id'', ''x10mqtt_x10_'' @ l @ py_str unit)],
         True))
       [1 .. 16])
     [(''A'', ''a''), (''B'', ''b'')])
   \<and> length (publishes (on_connect (cfg\<lparr>discoveryhouses := [''A'', ''B'']\<rparr>) rc)) = 32
   \<and> distinct (map fst (publishes (on_connect (cfg\<lparr>discoveryhouses := [''A'', ''B'']\<rparr>) rc)))
   \<and> distinct (publishes (on_connect (cfg\<lparr>discoveryhouses := [''A'', ''B'']\<rparr>) rc))"
  (is "?pub = ?msgs \<and> ?len \<and> ?topics \<and> ?dist")
proof -
  have eq: "?pub = ?msgs"
    unfolding publishes_on_connect ha_topic_def ha_config_def
    by (simp add: house_letter_cases del: upto.simps upto_rec_numeral)
  have len: ?len
    unfolding eq by simp
  have "map fst ?msgs = map (\<lambda>s. discoverytopic cfg @ s)
     (concat (map (\<lambda>l. map (\<lambda>unit. ''/switch/x10mqtt/x10_'' @ l @ py_str unit @ ''/config'')
       [1 .. 16]) [''a'', ''b'']))"
    by (simp add: comp_def del: upto.simps upto_rec_numeral)
  moreover have "distinct (concat (map (\<lambda>l.
       map (\<lambda>unit. ''/switch/x10mqtt/x10_'' @ l @ py_str unit @ ''/config'')
       [1 .. 16]) [''a'', ''b'']))"
    by code_simp
  ultimately have topics: "distinct (map fst ?msgs)"
    by (simp only: distinct_suffixes)
  from topics have "distinct ?msgs"
    by (rule distinct_map [THEN iffD1, THEN conjunct1])
  with topics len show ?thesis
    unfolding eq by blast
qed

theorem on_connect_announces_A_B_witness:
  "length (publishes (on_connect (default_config\<lparr>discoveryhouses := [''A'', ''B'']\<rparr>) 0)) = 32
   \<and> hd (publishes (on_connect (default_config\<lparr>discoveryhouses := [''A'', ''B'']\<rparr>) 0)) =
       (''homeassistant/switch/x10mqtt/x10_a1/config'',
        (let q = [CHR 0x22] in
         ''{'' @ q @ ''name'' @ q @ '': '' @ q @ ''X10 Module A1'' @ q @ '', '' @
         q @ ''state_topic'' @ q @ '': '' @ q @ ''x10/stat/a1'' @ q @ '', '' @
         q @ ''command_topic'' @ q @ '': '' @ q @ ''x10/cmd/a1'' @ q @ '', '' @
         q @ ''unique_id'' @ q @ '': '' @ q @ ''x10mqtt_x10_a1'' @ q @ ''}''),
        True)
   \<and> fst (last (publishes (on_connect (default_config\<lparr>discoveryhouses := [''A'', ''B'']\<rparr>) 0))) =
       ''homeassistant/switch/x10mqtt/x10_b16/config''"
proof -
  have p: "json_dumps
      [(''name'', ''X10 Module A1''), (''state_topic'', ''x10/stat/a1''),
       (''command_topic'', ''x10/cmd/a1''), (''unique_id'', ''x10mqtt_x10_a1'')] =
     (let q = [CHR 0x22] in
         ''{'' @ q @ ''name'' @ q @ '': '' @ q @ ''X10 Module A1'' @ q @ '', '' @
         q @ ''state_topic'' @ q @ '': '' @ q @ ''x10/stat/a1'' @ q @ '', '' @
         q @ ''command_topic'' @ q @ '': '' @ q @ ''x10/cmd/a1'' @ q @ '', '' @
         q @ ''unique_id'' @ q @ '': '' @ q @ ''x10mqtt_x10_a1'' @ q @ ''}'')"
    by code_simp
  have unit_texts: "py_str 1 = ''1''" "py_str 16 = ''16''"
    by code_simp+
  have units: "[1 .. 16 :: int] = 1 # [2 .. 15] @ [16]" "[2 .. 15 :: int] \<noteq> []"
    by code_simp+
  show ?thesis
    using on_connect_announces_A_B [of default_config 0] p
    by (simp add: default_config_def unit_texts units del: upto.simps upto_rec_numeral)
qed

text \<open>No handler changes the settings, and what a connection publishes is read off them.\<close>

lemma handle_cfg: "script_cfg (handle s i) = script_cfg s"
  by (cases i) (simp_all add: split_beta)

lemma run_script_cfg: "script_cfg (run_script s ins) = script_cfg s"
  unfolding run_script_def by (induction ins arbitrary: s) (simp_all add: handle_cfg)

lemma announced_eq:
  "announced s rc =
     concat (map (\<lambda>house. map (\<lambda>unit.
        (discoverytopic (script_cfg s) @ ''/switch/x10mqtt/x10_'' @ str_lower house @
           py_str unit @ ''/config'',
         json_dumps
           [(''name'', ''X10 Module '' @ str_upper house @ py_str unit),
            (''state_topic'', stattopic (script_cfg s) @ ''/'' @ str_lower house @ py_str unit),
            (''command_topic'', cmdtopic (script_cfg s) @ ''/'' @ str_lower house @ py_str unit),
            (''unique_id'', ''x10mqtt_x10_'' @ str_lower house @ py_str unit)],
         True))
       [1 .. 16]) (discoveryhouses (script_cfg s)))"
  unfolding announced_def
  by (simp add: publishes_on_connect ha_topic_def ha_config_def del: upto.simps upto_rec_numeral)

text \<open>
  C9. Discovery is idempotent and deterministic. Take the script in any state (its
  settings, its stored housecode, what it has done so far) and let anything happen to
  it: commands, monitor lines, other connections, in any number and order. A connection
  after all that announces what a connection in the first state announces, whatever the
  two result codes: for every configured letter and every unit from 1 to 16 the same
  topic and, character for character, the same payload, namely the ones written out below
  from the settings alone. In the example the store and the trace have changed between
  the two connections, and the sixteen messages for the letter A are the same.
\<close>

theorem discovery_repeats_after_any_activity:
  "announced (run_script s ins) rc' = announced s rc
   \<and> announced s rc =
     concat (map (\<lambda>house. map (\<lambda>unit.
        (discoverytopic (script_cfg s) @ ''/switch/x10mqtt/x10_'' @ str_lower house @
           py_str unit @ ''/config'',
         json_dumps
           [(''name'', ''X10 Module '' @ str_upper house @ py_str unit),
            (''state_topic'', stattopic (script_cfg s) @ ''/'' @ str_lower house @ py_str unit),
            (''command_topic'', cmdtopic (script_cfg s) @ ''/'' @ str_lower house @ py_str unit),
            (''unique_id'', ''x10mqtt_x10_'' @ str_lower house @ py_str unit)],
         True))
       [1 .. 16]) (discoveryhouses (script_cfg s)))"
proof
  show "announced (run_script s ins) rc' = announced s rc"
    by (simp only: announced_eq run_script_cfg)
  show "announced s rc =
     concat (map (\<lambda>house. map (\<lambda>unit.
        (discoverytopic (script_cfg s) @ ''/switch/x10mqtt/x10_'' @ str_lower house @
           py_str unit @ ''/config'',
         json_dumps
           [(''name'', ''X10 Module '' @ str_upper house @ py_str unit),
            (''state_topic'', stattopic (script_cfg s) @ ''/'' @ str_lower house @ py_str unit),
            (''command_topic'', cmdtopic (script_cfg s) @ ''/'' @ str_lower house @ py_str unit),
            (''unique_id'', ''x10mqtt_x10_'' @ str_lower house @ py_str unit)],
         True))
       [1 .. 16]) (discoveryhouses (script_cfg s)))"
    by (rule announced_eq)
qed

theorem discovery_repeats_after_any_activity_witness:
  "script_rcvihc (run_script example_script example_inputs) = ''B2''
   \<and> length (script_trace (run_script example_script example_inputs)) = 6
   \<and> announced (run_script example_script example_inputs) 5 = announced example_script 0
   \<and> length (announced (run_script example_script example_inputs) 5) = 16
   \<and> hd (announced (run_script example_script example_inputs) 5) =
       (''homeassistant/switch/x10mqtt/x10_a1/config'',
        (let q = [CHR 0x22] in
         ''{'' @ q @ ''name'' @ q @ '': '' @ q @ ''X10 Module A1'' @ q @ '', '' @
         q @ ''state_topic'' @ q @ '': '' @ q @ ''x10/stat/a1'' @ q @ '', '' @
         q @ ''command_topic'' @ q @ '': '' @ q @ ''x10/cmd/a1'' @ q @ '', '' @
         q @ ''unique_id'' @ q @ '': '' @ q @ ''x10mqtt_x10_a1'' @ q @ ''}''),
        True)"
proof -
  have st: "script_rcvihc (run_script example_script example_inputs) = ''B2''"
    by code_simp
  have tr: "length (script_trace (run_script example_script example_inputs)) = 6"
    by code_simp
  have p: "json_dumps
      [(''name'', ''X10 Module A1''), (''state_topic'', ''x10/stat/a1''),
       (''command_topic'', ''x10/cmd/a1''), (''unique_id'', ''x10mqtt_x10_a1'')] =
     (let q = [CHR 0x22] in
         ''{'' @ q @ ''name'' @ q @ '': '' @ q @ ''X10 Module A1'' @ q @ '', '' @
         q @ ''state_topic'' @ q @ '': '' @ q @ ''x10/stat/a1'' @ q @ '', '' @
         q @ ''command_topic'' @ q @ '': '' @ q @ ''x10/cmd/a1'' @ q @ '', '' @
         q @ ''unique_id'' @ q @ '': '' @ q @ ''x10mqtt_x10_a1'' @ q @ ''}'')"
    by code_simp
  have unit_texts: "py_str 1 = ''1''"
    by code_simp
  have units: "[1 .. 16 :: int] = 1 # [2 .. 16]"
    by code_simp
  note inst = discovery_repeats_after_any_activity [of example_script example_inputs 5 0]
  have first: "length (announced example_script 0) = 16
      \<and> hd (announced example_script 0) =
       (''homeassistant/switch/x10mqtt/x10_a1/config'',
        (let q = [CHR 0x22] in
         ''{'' @ q @ ''name'' @ q @ '': '' @ q @ ''X10 Module A1'' @ q @ '', '' @
         q @ ''state_topic'' @ q @ '': '' @ q @ ''x10/stat/a1'' @ q @ '', '' @
         q @ ''command_topic'' @ q @ '': '' @ q @ ''x10/cmd/a1'' @ q @ '', '' @
         q @ ''unique_id'' @ q @ '': '' @ q @ ''x10mqtt_x10_a1'' @ q @ ''}''),
        True)"
    unfolding inst [THEN conjunct2]
    using p by (simp add: example_script_def default_config_def house_letter_cases unit_texts
        units del: upto.simps upto_rec_numeral)
  show ?thesis
    unfolding inst [THEN conjunct1] using st tr first by (intro conjI) simp_all
qed

section \<open>What the patterns of the monitor capture\<close>

text \<open>
  A match of a pattern is a match of each of its tails, somewhere further in the text; so
  the group of a match is what the last items of the pattern read.
\<close>

lemma rmatch_tail:
  assumes "rmatch (x # p) pos c s = Some r"
  shows "\<exists>pos' c' s'. rmatch p pos' c' s' = Some r"
proof (cases x)
  case (Alt ls)
  with assms obtain l where
    "rmatch p (pos + length l) (eat l c) (drop (length l) s) = Some r"
    by (auto simp: rmatch_Alt dest!: first_some_SomeD split: if_splits)
  then show ?thesis by blast
next
  case (Star k)
  with assms obtain n where "rmatch p (pos + n) (eat (take n s) c) (drop n s) = Some r"
    by (auto simp: rmatch_Star simp del: upt_Suc dest!: first_some_SomeD)
  then show ?thesis by blast
next
  case (Plus k)
  with assms obtain n where "rmatch p (pos + n) (eat (take n s) c) (drop n s) = Some r"
    by (auto simp: rmatch_Plus simp del: upt_Suc dest!: first_some_SomeD)
  then show ?thesis by blast
next
  case (One k)
  with assms show ?thesis
    by (cases s) (auto simp: rmatch_One split: if_splits)
qed (use assms in \<open>auto simp: rmatch_items split: if_splits\<close>)

lemma digits_take:
  assumes "n \<le> length (takeWhile P xs)"
  shows "list_all P (take n xs)"
proof -
  have "take n xs = take n (takeWhile P xs)"
    using assms by (metis takeWhile_dropWhile_id take_append diff_is_0_eq take_0 append_Nil2)
  moreover have "list_all P (takeWhile P xs)"
    by (simp add: list_all_iff) (meson set_takeWhileD)
  ultimately show ?thesis
    by (simp add: list_all_iff) (meson in_set_takeD)
qed

lemma housecode_group:
  assumes "rmatch [GrpOpen, One (Range CHR ''A'' CHR ''P''), Plus (Range CHR ''0'' CHR ''9''),
             GrpClose] pos c s = Some r"
  shows "\<exists>g. r = Closed g \<and> housecode_grammar g"
proof (cases s)
  case Nil
  with assms show ?thesis by (simp add: rmatch_items)
next
  case (Cons a t)
  with assms have a: "is_house_letter a"
    and m: "rmatch [Plus (Range CHR ''0'' CHR ''9''), GrpClose] (Suc pos) (Opened [a]) t = Some r"
    by (auto simp: rmatch_GrpOpen rmatch_One is_house_letter_def simp del: in_cls.simps
        split: if_splits)
  from m obtain n where n: "1 \<le> n" "n \<le> length (takeWhile is_digit t)"
    and r: "r = Closed (a # take n t)"
    by (auto simp: rmatch_Plus rmatch_GrpClose is_digit_def [abs_def]
        simp del: upt_Suc in_cls.simps dest!: first_some_SomeD)
  have "take n t \<noteq> []"
    using n by (cases t) auto
  moreover have "list_all is_digit (take n t)"
    using n(2) by (rule digits_take)
  ultimately have "housecode_grammar (a # take n t)"
    using a by simp
  with r show ?thesis by blast
qed

text \<open>The address pattern captures a housecode of the grammar; the function pattern, On or Off.\<close>

lemma addr_capture:
  assumes "re_search rercviaddr line = Some a"
  shows "housecode_grammar (group1 a)"
proof -
  from assms obtain i where "rmatch rercviaddr i Unset (drop i line) = Some a"
    unfolding re_search_def by (blast dest: first_some_SomeD)
  then obtain pos c s where
    "rmatch [GrpOpen, One (Range CHR ''A'' CHR ''P''), Plus (Range CHR ''0'' CHR ''9''),
       GrpClose] pos c s = Some a"
    unfolding rercviaddr_def by (blast dest: rmatch_tail)
  then obtain g where "a = Closed g" "housecode_grammar g"
    by (blast dest: housecode_group)
  then show ?thesis by simp
qed

lemma addr_capture_not_empty: "re_search rercviaddr line = Some a \<Longrightarrow> group1 a \<noteq> []"
  using addr_capture [of line a] by (cases "group1 a") auto

lemma func_capture:
  assumes "re_search rercvifunc line = Some f"
  shows "group1 f = ''On'' \<or> group1 f = ''Off''"
proof -
  from assms obtain i where "rmatch rercvifunc i Unset (drop i line) = Some f"
    unfolding re_search_def by (blast dest: first_some_SomeD)
  then obtain pos c s where
    "rmatch [GrpOpen, Alt [''On'', ''Off''], GrpClose, Lit '' :''] pos c s = Some f"
    unfolding rercvifunc_def by (blast dest: rmatch_tail)
  then show ?thesis
    by (auto simp: rmatch_items split: if_splits option.splits)
qed

section \<open>Claims about the monitor loop\<close>

text \<open>The body of the loop, by which of the two patterns the line matches.\<close>

lemma process_line_cases:
  "process_line cfg rcvihc line =
     (case (re_search rercviaddr line, re_search rercvifunc line) of
        (None, None) \<Rightarrow> (rcvihc, [])
      | (Some a, None) \<Rightarrow> (group1 a, [])
      | (None, Some f) \<Rightarrow> rcvifunc cfg (group1 f) rcvihc
      | (Some a, Some f) \<Rightarrow>
          ([],
           [Print (''Remote status change, publishing stat update: '' @ stattopic cfg @ ''/'' @
                   str_lower (group1 a) @ '' is now '' @ str_upper (group1 f)),
            Publish (stattopic cfg @ ''/'' @ str_lower (group1 a)) (str_upper (group1 f)) True]))"
  by (auto simp: process_line_def Let_def rcviaddr_def rcvifunc_def addr_capture_not_empty
      split: option.splits)

lemma overlap_line:
  "re_search rercviaddr ''rcvi addr unit 1 : hu A1 rcvi func On :'' = Some (Closed ''A1'')"
  "re_search rercvifunc ''rcvi addr unit 1 : hu A1 rcvi func On :'' = Some (Closed ''On'')"
  by code_simp+

lemma example_lines:
  "re_search rercviaddr ''rcvi addr unit 1 : hu A1'' = Some (Closed ''A1'')"
  "re_search rercvifunc ''rcvi addr unit 1 : hu A1'' = None"
  "re_search rercviaddr ''rcvi addr unit 2 : hu B2'' = Some (Closed ''B2'')"
  "re_search rercvifunc ''rcvi addr unit 2 : hu B2'' = None"
  "re_search rercviaddr ''rcvi func On : hc A'' = None"
  "re_search rercvifunc ''rcvi func On : hc A'' = Some (Closed ''On'')"
  "re_search rercviaddr ''rcvi func Off : hc B'' = None"
  "re_search rercvifunc ''rcvi func Off : hc B'' = Some (Closed ''Off'')"
  by code_simp+

text \<open>
  C3, as stated: no line matches both patterns. The line below matches both; the loop
  stores its address and then publishes for it.
\<close>

theorem patterns_overlap:
  "re_search rercviaddr ''rcvi addr unit 1 : hu A1 rcvi func On :'' = Some (Closed ''A1'')
   \<and> re_search rercvifunc ''rcvi addr unit 1 : hu A1 rcvi func On :'' = Some (Closed ''On'')
   \<and> process_line default_config [] ''rcvi addr unit 1 : hu A1 rcvi func On :'' =
       ([],
        [Print ''Remote status change, publishing stat update: x10/stat/a1 is now ON'',
         Publish ''x10/stat/a1'' ''ON'' True])"
  by (simp add: process_line_cases overlap_line default_config_def str_lower_examples
      str_upper_examples)

text \<open>
  C3, amended. The two patterns are not disjoint: some line matches both. Each line is
  searched with both patterns and each result is tested on its own: a line that matches
  neither changes nothing; a line that matches the address pattern only stores its
  housecode; a line that matches the function pattern only is handled by \<open>rcvifunc\<close>
  with the stored housecode; and on a line that matches both, the address is stored
  first and the function is then applied to it, so that the line publishes the state of
  its own housecode and leaves the store empty.
\<close>

theorem process_line_tests_both_patterns:
  "(\<exists>line. re_search rercviaddr line \<noteq> None \<and> re_search rercvifunc line \<noteq> None)
   \<and> process_line cfg rcvihc line =
     (case (re_search rercviaddr line, re_search rercvifunc line) of
        (None, None) \<Rightarrow> (rcvihc, [])
      | (Some a, None) \<Rightarrow> (group1 a, [])
      | (None, Some f) \<Rightarrow> rcvifunc cfg (group1 f) rcvihc
      | (Some a, Some f) \<Rightarrow>
          ([],
           [Print (''Remote status change, publishing stat update: '' @ stattopic cfg @ ''/'' @
                   str_lower (group1 a) @ '' is now '' @ str_upper (group1 f)),
            Publish (stattopic cfg @ ''/'' @ str_lower (group1 a)) (str_upper (group1 f)) True]))"
proof -
  have "re_search rercviaddr ''rcvi addr unit 1 : hu A1 rcvi func On :'' \<noteq> None
      \<and> re_search rercvifunc ''rcvi addr unit 1 : hu A1 rcvi func On :'' \<noteq> None"
    by (simp add: overlap_line)
  then have "\<exists>line. re_search rercviaddr line \<noteq> None \<and> re_search rercvifunc line \<noteq> None"
    by blast
  then show ?thesis
    by (simp only: process_line_cases simp_thms)
qed

theorem process_line_tests_both_patterns_witness:
  "process_line default_config ''B2'' ''rcvi addr unit 1 : hu A1 rcvi func On :'' =
     ([],
      [Print ''Remote status change, publishing stat update: x10/stat/a1 is now ON'',
       Publish ''x10/stat/a1'' ''ON'' True])
   \<and> process_line default_config ''B2'' ''rcvi addr unit 1 : hu A1'' = (''A1'', [])
   \<and> process_line default_config ''B2'' ''rcvi func Off : hc B'' =
     ([],
      [Print ''Remote status change, publishing stat update: x10/stat/b2 is now OFF'',
       Publish ''x10/stat/b2'' ''OFF'' True])
   \<and> process_line default_config ''B2'' ''rcvi status'' = (''B2'', [])"
proof -
  have none: "re_search rercviaddr ''rcvi status'' = None"
    "re_search rercvifunc ''rcvi status'' = None"
    by code_simp+
  show ?thesis
    using process_line_tests_both_patterns
        [of default_config "''B2''" "''rcvi addr unit 1 : hu A1 rcvi func On :''"]
      process_line_tests_both_patterns [of default_config "''B2''" "''rcvi addr unit 1 : hu A1''"]
      process_line_tests_both_patterns [of default_config "''B2''" "''rcvi func Off : hc B''"]
      process_line_tests_both_patterns [of default_config "''B2''" "''rcvi status''"]
    by (simp add: overlap_line example_lines none rcvifunc_def default_config_def
        str_lower_examples str_upper_examples)
qed

section \<open>Claims about the end of the monitor\<close>

lemma spawns_process_line: "spawns (snd (process_line cfg st line)) = []"
  by (simp add: process_line_cases rcvifunc_def split: option.splits)

lemma spawns_run_lines: "spawns (snd (run_lines cfg st ls)) = []"
  by (induction ls arbitrary: st)
    (simp_all add: split_beta spawns_append spawns_process_line)

text \<open>
  C7, as stated: the end of the monitor is a failure for every return code. With return
  code 0 the loop ends and the script finishes with no error raised.
\<close>

theorem monitor_exit_zero_finishes:
  "snd (main_loop default_config [''rcvi addr unit 1 : hu A1''] 0) = Finished"
  by (simp add: main_loop_def monitor_end_def)

text \<open>
  C7, amended. When the controller has closed its output and exited, a non-zero return
  code makes the monitor raise an error, which ends the script; the return code 0 ends
  the loop and the script with no error. In both cases the controller was started once
  and is not started again.
\<close>

theorem monitor_end_outcome:
  "(return_code \<noteq> 0 \<longrightarrow> (\<exists>e. snd (main_loop cfg lines return_code) = Raised e))
   \<and> (return_code = 0 \<longrightarrow> snd (main_loop cfg lines return_code) = Finished)
   \<and> spawns (fst (main_loop cfg lines return_code)) = [[''heyu'', ''monitor'']]"
  by (simp add: main_loop_def monitor_end_def spawns_run_lines)

theorem monitor_end_outcome_witness:
  "(\<exists>e. snd (main_loop default_config [''rcvi addr unit 1 : hu A1''] 1) = Raised e)
   \<and> snd (main_loop default_config [''rcvi addr unit 1 : hu A1''] 0) = Finished
   \<and> spawns (fst (main_loop default_config [''rcvi addr unit 1 : hu A1''] 1)) =
       [[''heyu'', ''monitor'']]
   \<and> spawns (fst (main_loop default_config [''rcvi addr unit 1 : hu A1''] 0)) =
       [[''heyu'', ''monitor'']]"
  using monitor_end_outcome [of 1 default_config "[''rcvi addr unit 1 : hu A1'']"]
    monitor_end_outcome [of 0 default_config "[''rcvi addr unit 1 : hu A1'']"]
  by simp

section \<open>Claims about the pairing of lines\<close>

lemma run_lines_snoc:
  "run_lines cfg st0 (ls @ [l]) =
     (let (st, es) = run_lines cfg st0 ls;
          (st', es') = process_line cfg st l
      in (st', es @ es'))"
  by (induction ls arbitrary: st0) (simp_all add: split_beta)

text \<open>
  C5. An address line that comes before any function line overwrites the stored
  housecode: after two address lines the store holds the housecode of the second and
  nothing has been published, and a function line that follows publishes exactly one
  event, for the second housecode; the first is dropped with no event. An address line is
  a line that matches the address pattern and not the function pattern, a function line
  one that matches the function pattern and not the address pattern. The witness is at
  the lines for A1, B2 and Off, which publish OFF for b2.
\<close>

theorem second_address_overwrites_first:
  assumes "re_search rercviaddr l1 = Some a1" and "re_search rercvifunc l1 = None"
    and "re_search rercviaddr l2 = Some a2" and "re_search rercvifunc l2 = None"
    and "re_search rercvifunc l3 = Some f" and "re_search rercviaddr l3 = None"
  shows "run_lines cfg st [l1] = (group1 a1, [])
    \<and> run_lines cfg st [l1, l2] = (group1 a2, [])
    \<and> publishes (snd (run_lines cfg st [l1, l2, l3])) =
        [(stattopic cfg @ ''/'' @ str_lower (group1 a2), str_upper (group1 f), True)]
    \<and> fst (run_lines cfg st [l1, l2, l3]) = []"
  using assms addr_capture_not_empty [of l2 a2]
  by (simp add: process_line_cases rcvifunc_def)

theorem second_address_overwrites_first_witness:
  "run_lines default_config []
     [''rcvi addr unit 1 : hu A1'', ''rcvi addr unit 2 : hu B2''] = (''B2'', [])
   \<and> publishes (snd (run_lines default_config []
       [''rcvi addr unit 1 : hu A1'', ''rcvi addr unit 2 : hu B2'', ''rcvi func Off : hc B''])) =
       [(''x10/stat/b2'', ''OFF'', True)]
   \<and> fst (run_lines default_config []
       [''rcvi addr unit 1 : hu A1'', ''rcvi addr unit 2 : hu B2'', ''rcvi func Off : hc B'']) = []"
  using second_address_overwrites_first
    [OF example_lines(1) example_lines(2) example_lines(3) example_lines(4)
        example_lines(8) example_lines(7), of default_config "[]"]
  by (simp add: default_config_def str_lower_examples str_upper_examples process_line_cases
      example_lines rcvifunc_def)

text \<open>
  The invariant of the loop, started with the empty store: a housecode in the store was
  captured on an earlier line, after which no line matched the address pattern and, from
  that line on, none matched the function pattern; and every event published pairs a
  match of the address pattern with a match of the function pattern on the same line or
  on a later one, with no other match of either pattern between the two.
\<close>

lemma run_lines_pairs:
  assumes "run_lines cfg [] ls = (st, es)"
  shows "(st \<noteq> [] \<longrightarrow>
          (\<exists>i a. i < length ls \<and> re_search rercviaddr (ls ! i) = Some a \<and> group1 a = st
             \<and> (\<forall>k. i < k \<and> k < length ls \<longrightarrow> re_search rercviaddr (ls ! k) = None)
             \<and> (\<forall>k. i \<le> k \<and> k < length ls \<longrightarrow> re_search rercvifunc (ls ! k) = None)))
       \<and> (\<forall>e \<in> set (publishes es).
            \<exists>i j a f. i \<le> j \<and> j < length ls
              \<and> re_search rercviaddr (ls ! i) = Some a
              \<and> re_search rercvifunc (ls ! j) = Some f
              \<and> e = (stattopic cfg @ ''/'' @ str_lower (group1 a), str_upper (group1 f), True)
              \<and> (\<forall>k. i < k \<and> k \<le> j \<longrightarrow> re_search rercviaddr (ls ! k) = None)
              \<and> (\<forall>k. i \<le> k \<and> k < j \<longrightarrow> re_search rercvifunc (ls ! k) = None))"
  using assms
proof (induction ls arbitrary: st es rule: rev_induct)
  case Nil
  then show ?case by simp
next
  case (snoc l ls)
  define Pend where "Pend xs s \<longleftrightarrow>
      (\<exists>i a. i < length xs \<and> re_search rercviaddr (xs ! i) = Some a \<and> group1 a = s
         \<and> (\<forall>k. i < k \<and> k < length xs \<longrightarrow> re_search rercviaddr (xs ! k) = None)
         \<and> (\<forall>k. i \<le> k \<and> k < length xs \<longrightarrow> re_search rercvifunc (xs ! k) = None))"
    for xs :: "string list" and s :: string
  define Ev where "Ev xs e \<longleftrightarrow>
      (\<exists>i j a f. i \<le> j \<and> j < length xs
         \<and> re_search rercviaddr (xs ! i) = Some a
         \<and> re_search rercvifunc (xs ! j) = Some f
         \<and> e = (stattopic cfg @ ''/'' @ str_lower (group1 a), str_upper (group1 f), True)
         \<and> (\<forall>k. i < k \<and> k \<le> j \<longrightarrow> re_search rercviaddr (xs ! k) = None)
         \<and> (\<forall>k. i \<le> k \<and> k < j \<longrightarrow> re_search rercvifunc (xs ! k) = None))"
    for xs :: "string list" and e :: "string \<times> string \<times> bool"
  obtain st0 es0 where r0: "run_lines cfg [] ls = (st0, es0)"
    by (cases "run_lines cfg [] ls") auto
  obtain es1 where step: "process_line cfg st0 l = (st, es1)" and es: "es = es0 @ es1"
    using snoc.prems r0 by (auto simp: run_lines_snoc split: prod.splits)
  from snoc.IH [OF r0] have pend0: "st0 \<noteq> [] \<longrightarrow> Pend ls st0"
    and ev0: "\<forall>e \<in> set (publishes es0). Ev ls e"
    unfolding Pend_def Ev_def by blast+
  have ev_mono: "Ev (ls @ [l]) e" if "Ev ls e" for e
  proof -
    from that obtain i j a f where h: "i \<le> j" "j < length ls"
      "re_search rercviaddr (ls ! i) = Some a" "re_search rercvifunc (ls ! j) = Some f"
      "e = (stattopic cfg @ ''/'' @ str_lower (group1 a), str_upper (group1 f), True)"
      "\<forall>k. i < k \<and> k \<le> j \<longrightarrow> re_search rercviaddr (ls ! k) = None"
      "\<forall>k. i \<le> k \<and> k < j \<longrightarrow> re_search rercvifunc (ls ! k) = None"
      unfolding Ev_def by blast
    have "i \<le> j \<and> j < length (ls @ [l])
         \<and> re_search rercviaddr ((ls @ [l]) ! i) = Some a
         \<and> re_search rercvifunc ((ls @ [l]) ! j) = Some f
         \<and> e = (stattopic cfg @ ''/'' @ str_lower (group1 a), str_upper (group1 f), True)
         \<and> (\<forall>k. i < k \<and> k \<le> j \<longrightarrow> re_search rercviaddr ((ls @ [l]) ! k) = None)
         \<and> (\<forall>k. i \<le> k \<and> k < j \<longrightarrow> re_search rercvifunc ((ls @ [l]) ! k) = None)"
      using h by (auto simp: nth_append)
    then show ?thesis unfolding Ev_def by blast
  qed
  have pend_keep: "Pend (ls @ [l]) s"
    if "Pend ls s" "re_search rercviaddr l = None" "re_search rercvifunc l = None" for s
  proof -
    from that(1) obtain i a where h: "i < length ls"
      "re_search rercviaddr (ls ! i) = Some a" "group1 a = s"
      "\<forall>k. i < k \<and> k < length ls \<longrightarrow> re_search rercviaddr (ls ! k) = None"
      "\<forall>k. i \<le> k \<and> k < length ls \<longrightarrow> re_search rercvifunc (ls ! k) = None"
      unfolding Pend_def by blast
    have "i < length (ls @ [l]) \<and> re_search rercviaddr ((ls @ [l]) ! i) = Some a \<and> group1 a = s
        \<and> (\<forall>k. i < k \<and> k < length (ls @ [l]) \<longrightarrow> re_search rercviaddr ((ls @ [l]) ! k) = None)
        \<and> (\<forall>k. i \<le> k \<and> k < length (ls @ [l]) \<longrightarrow> re_search rercvifunc ((ls @ [l]) ! k) = None)"
      using h that(2,3) by (auto simp: nth_append less_Suc_eq)
    then show ?thesis unfolding Pend_def by blast
  qed
  have pend_new: "Pend (ls @ [l]) (group1 a)"
    if "re_search rercviaddr l = Some a" "re_search rercvifunc l = None" for a
    unfolding Pend_def using that
    by (intro exI [of _ "length ls"] exI [of _ a]) (auto simp: nth_append)
  have ev_same: "Ev (ls @ [l])
      (stattopic cfg @ ''/'' @ str_lower (group1 a), str_upper (group1 f), True)"
    if "re_search rercviaddr l = Some a" "re_search rercvifunc l = Some f" for a f
    unfolding Ev_def using that
    by (intro exI [of _ "length ls"] exI [of _ a] exI [of _ f]) (auto simp: nth_append)
  have ev_pair: "Ev (ls @ [l])
      (stattopic cfg @ ''/'' @ str_lower s, str_upper (group1 f), True)"
    if "Pend ls s" "re_search rercviaddr l = None" "re_search rercvifunc l = Some f" for s f
  proof -
    from that(1) obtain i a where h: "i < length ls"
      "re_search rercviaddr (ls ! i) = Some a" "group1 a = s"
      "\<forall>k. i < k \<and> k < length ls \<longrightarrow> re_search rercviaddr (ls ! k) = None"
      "\<forall>k. i \<le> k \<and> k < length ls \<longrightarrow> re_search rercvifunc (ls ! k) = None"
      unfolding Pend_def by blast
    have "i \<le> length ls \<and> length ls < length (ls @ [l])
         \<and> re_search rercviaddr ((ls @ [l]) ! i) = Some a
         \<and> re_search rercvifunc ((ls @ [l]) ! length ls) = Some f
         \<and> (stattopic cfg @ ''/'' @ str_lower s, str_upper (group1 f), True) =
             (stattopic cfg @ ''/'' @ str_lower (group1 a), str_upper (group1 f), True)
         \<and> (\<forall>k. i < k \<and> k \<le> length ls \<longrightarrow> re_search rercviaddr ((ls @ [l]) ! k) = None)
         \<and> (\<forall>k. i \<le> k \<and> k < length ls \<longrightarrow> re_search rercvifunc ((ls @ [l]) ! k) = None)"
      using h that(2,3) by (auto simp: nth_append)
    then show ?thesis unfolding Ev_def by blast
  qed
  have "(st \<noteq> [] \<longrightarrow> Pend (ls @ [l]) st) \<and> (\<forall>e \<in> set (publishes es). Ev (ls @ [l]) e)"
  proof (cases "re_search rercviaddr l")
    case None
    note addr = None
    show ?thesis
    proof (cases "re_search rercvifunc l")
      case None
      with addr step have "st = st0" "es1 = []"
        by (simp_all add: process_line_cases)
      with pend0 ev0 es addr None show ?thesis
        by (auto intro: ev_mono pend_keep)
    next
      case (Some f)
      show ?thesis
      proof (cases "st0 = []")
        case True
        with addr Some step have "st = []" "es1 = []"
          by (simp_all add: process_line_cases rcvifunc_def)
        with ev0 es show ?thesis
          by (auto intro: ev_mono)
      next
        case False
        with addr Some step have "st = []"
          and "publishes es1 =
            [(stattopic cfg @ ''/'' @ str_lower st0, str_upper (group1 f), True)]"
          by (auto simp: process_line_cases rcvifunc_def)
        moreover have "Ev (ls @ [l])
            (stattopic cfg @ ''/'' @ str_lower st0, str_upper (group1 f), True)"
          using False pend0 addr Some by (blast intro: ev_pair)
        ultimately show ?thesis
          using ev0 es by (auto simp: publishes_append intro: ev_mono)
      qed
    qed
  next
    case (Some a)
    note addr = Some
    show ?thesis
    proof (cases "re_search rercvifunc l")
      case None
      with addr step have "st = group1 a" "es1 = []"
        by (simp_all add: process_line_cases)
      with ev0 es addr None show ?thesis
        by (auto intro: ev_mono pend_new)
    next
      case (Some f)
      with addr step have "st = []"
        and "publishes es1 =
          [(stattopic cfg @ ''/'' @ str_lower (group1 a), str_upper (group1 f), True)]"
        by (auto simp: process_line_cases)
      moreover have "Ev (ls @ [l])
          (stattopic cfg @ ''/'' @ str_lower (group1 a), str_upper (group1 f), True)"
        using addr Some by (rule ev_same)
      ultimately show ?thesis
        using ev0 es by (auto simp: publishes_append intro: ev_mono)
    qed
  qed
  then show ?case
    unfolding Pend_def Ev_def by blast
qed

text \<open>
  C4, as stated: an event comes only from an address line followed by a function line,
  never from a line that arrives while the store is empty. The single line below arrives
  at the empty store and an event is published: the line matches both patterns.
\<close>

theorem event_from_one_line:
  "re_search rercvifunc ''sndc addr unit 5 : hu C5 sndc func Off :'' = Some (Closed ''Off'')
   \<and> run_lines default_config [] [''sndc addr unit 5 : hu C5 sndc func Off :''] =
       ([],
        [Print ''Remote status change, publishing stat update: x10/stat/c5 is now OFF'',
         Publish ''x10/stat/c5'' ''OFF'' True])"
  by code_simp

text \<open>
  C4, amended. For every sequence of lines read from the empty store, every event
  published pairs a match of the address pattern with a match of the function pattern on
  a later line or on the same line: its housecode is the one captured by the last address
  match before the function match, and no function match lies between the two. A
  function line (one that matches the function pattern and not the address pattern) that
  arrives at the empty store publishes nothing and leaves the store empty. An address
  line for A1 followed by a function line for On publishes exactly one event, ON for a1,
  from any store.
\<close>

theorem events_come_from_pairs:
  "(\<forall>e \<in> set (publishes (snd (run_lines cfg [] ls))).
      \<exists>i j a f. i \<le> j \<and> j < length ls
        \<and> re_search rercviaddr (ls ! i) = Some a
        \<and> re_search rercvifunc (ls ! j) = Some f
        \<and> e = (stattopic cfg @ ''/'' @ str_lower (group1 a), str_upper (group1 f), True)
        \<and> (\<forall>k. i < k \<and> k \<le> j \<longrightarrow> re_search rercviaddr (ls ! k) = None)
        \<and> (\<forall>k. i \<le> k \<and> k < j \<longrightarrow> re_search rercvifunc (ls ! k) = None))
   \<and> (re_search rercvifunc lf = Some f \<and> re_search rercviaddr lf = None
        \<longrightarrow> process_line cfg [] lf = ([], []))
   \<and> (re_search rercviaddr la = Some a \<and> group1 a = ''A1'' \<and> re_search rercvifunc la = None
        \<and> re_search rercvifunc lf = Some f \<and> group1 f = ''On'' \<and> re_search rercviaddr lf = None
        \<longrightarrow> publishes (snd (run_lines cfg st [la, lf])) = [(stattopic cfg @ ''/a1'', ''ON'', True)]
          \<and> fst (run_lines cfg st [la, lf]) = [])"
proof (intro conjI)
  show "\<forall>e \<in> set (publishes (snd (run_lines cfg [] ls))).
      \<exists>i j a f. i \<le> j \<and> j < length ls
        \<and> re_search rercviaddr (ls ! i) = Some a
        \<and> re_search rercvifunc (ls ! j) = Some f
        \<and> e = (stattopic cfg @ ''/'' @ str_lower (group1 a), str_upper (group1 f), True)
        \<and> (\<forall>k. i < k \<and> k \<le> j \<longrightarrow> re_search rercviaddr (ls ! k) = None)
        \<and> (\<forall>k. i \<le> k \<and> k < j \<longrightarrow> re_search rercvifunc (ls ! k) = None)"
    using run_lines_pairs [of cfg ls "fst (run_lines cfg [] ls)" "snd (run_lines cfg [] ls)"]
    by simp
  show "re_search rercvifunc lf = Some f \<and> re_search rercviaddr lf = None
        \<longrightarrow> process_line cfg [] lf = ([], [])"
    by (simp add: process_line_cases rcvifunc_def)
  show "re_search rercviaddr la = Some a \<and> group1 a = ''A1'' \<and> re_search rercvifunc la = None
        \<and> re_search rercvifunc lf = Some f \<and> group1 f = ''On'' \<and> re_search rercviaddr lf = None
        \<longrightarrow> publishes (snd (run_lines cfg st [la, lf])) = [(stattopic cfg @ ''/a1'', ''ON'', True)]
          \<and> fst (run_lines cfg st [la, lf]) = []"
    by (simp add: process_line_cases rcvifunc_def str_lower_examples str_upper_examples)
qed

theorem events_come_from_pairs_witness:
  "publishes (snd (run_lines default_config []
      [''rcvi addr unit 1 : hu A1'', ''rcvi func On : hc A''])) = [(''x10/stat/a1'', ''ON'', True)]
   \<and> (\<exists>i j a f. i \<le> j \<and> j < length [''rcvi addr unit 1 : hu A1'', ''rcvi func On : hc A'']
        \<and> re_search rercviaddr ([''rcvi addr unit 1 : hu A1'', ''rcvi func On : hc A''] ! i) = Some a
        \<and> re_search rercvifunc ([''rcvi addr unit 1 : hu A1'', ''rcvi func On : hc A''] ! j) = Some f
        \<and> (''x10/stat/a1'', ''ON'', True) =
            (stattopic default_config @ ''/'' @ str_lower (group1 a), str_upper (group1 f), True)
        \<and> (\<forall>k. i < k \<and> k \<le> j \<longrightarrow>
              re_search rercviaddr
                ([''rcvi addr unit 1 : hu A1'', ''rcvi func On : hc A''] ! k) = None)
        \<and> (\<forall>k. i \<le> k \<and> k < j \<longrightarrow>
              re_search rercvifunc
                ([''rcvi addr unit 1 : hu A1'', ''rcvi func On : hc A''] ! k) = None))
   \<and> process_line default_config [] ''rcvi func On : hc A'' = ([], [])
   \<and> fst (run_lines default_config ''B2''
        [''rcvi addr unit 1 : hu A1'', ''rcvi func On : hc A'']) = []
   \<and> publishes (snd (run_lines default_config ''B2''
        [''rcvi addr unit 1 : hu A1'', ''rcvi func On : hc A''])) = [(''x10/stat/a1'', ''ON'', True)]"
proof -
  let ?la = "''rcvi addr unit 1 : hu A1''" and ?lf = "''rcvi func On : hc A''"
  note inst = events_come_from_pairs
    [of default_config "[?la, ?lf]" ?lf "Closed ''On''" ?la "Closed ''A1''"]
  have pairs: "publishes (snd (run_lines default_config st [?la, ?lf])) =
      [(''x10/stat/a1'', ''ON'', True)] \<and> fst (run_lines default_config st [?la, ?lf]) = []" for st
    using inst [of st] by (simp add: example_lines default_config_def)
  have single: "process_line default_config [] ?lf = ([], [])"
    using inst [of "[]"] by (simp add: example_lines)
  have c1: "publishes (snd (run_lines default_config [] [?la, ?lf])) =
      [(''x10/stat/a1'', ''ON'', True)]"
    using pairs [of "[]"] by (rule conjunct1)
  have mem: "(''x10/stat/a1'', ''ON'', True) \<in>
      set (publishes (snd (run_lines default_config [] [?la, ?lf])))"
    unfolding c1 by simp
  note ex = inst [of "[]", THEN conjunct1, THEN bspec, OF mem]
  show ?thesis
    by (intro conjI) (rule c1 ex single pairs [of "''B2''", THEN conjunct1]
        pairs [of "''B2''", THEN conjunct2])+
qed

end
